theory Spec2Isabelle
  imports Complex_Main "HOL-Library.Word" "HOL-Library.List_Lexorder"
begin

unbundle bit_operations_syntax

section \<open>Numeric values of the template parameter \<open>NumT\<close>\<close>

text \<open>
  \<^verbatim>\<open>isnone\<close> is a template over the value type \<open>NumT\<close>. Its body uses two operations
  of that type only: \<^verbatim>\<open>std::isnan(n)\<close> and the comparison \<^verbatim>\<open>n == 0\<close>. The embedding
  covers the two instantiations the library's documentation talks about, a machine
  \<^verbatim>\<open>int\<close> and a single IEEE 754 \<^verbatim>\<open>double\<close>. A double is its 64-bit pattern: bit 63 is
  the sign, bits 62..52 the biased exponent, bits 51..0 the fraction.
\<close>

type_synonym double = "64 word"

definition exponent_bits :: "double \<Rightarrow> 64 word" where
  "exponent_bits d = drop_bit 52 d AND 0x7FF"

definition fraction_bits :: "double \<Rightarrow> 64 word" where
  "fraction_bits d = d AND 0xFFFFFFFFFFFFF"

text \<open>IEEE 754: a NaN has an exponent field of all ones and a fraction that is not zero.\<close>

definition double_isnan :: "double \<Rightarrow> bool" where
  "double_isnan d \<longleftrightarrow> exponent_bits d = 0x7FF \<and> fraction_bits d \<noteq> 0"

text \<open>IEEE 754: a zero has exponent and fraction fields of zero; the sign is free.\<close>

definition double_iszero :: "double \<Rightarrow> bool" where
  "double_iszero d \<longleftrightarrow> exponent_bits d = 0 \<and> fraction_bits d = 0"

text \<open>
  The operator \<^verbatim>\<open>==\<close> of two doubles: a NaN compares unequal to everything, also to
  itself; the two zeros compare equal; otherwise the patterns decide.
\<close>

definition double_eq :: "double \<Rightarrow> double \<Rightarrow> bool" where
  "double_eq a b \<longleftrightarrow>
     \<not> double_isnan a \<and> \<not> double_isnan b \<and> (a = b \<or> (double_iszero a \<and> double_iszero b))"

text \<open>Some doubles by their patterns: \<open>+0.0\<close>, \<open>-0.0\<close>, \<open>5.0\<close> and the quiet NaN.\<close>

definition pos_zero :: double where
  "pos_zero = 0x0000000000000000"

definition neg_zero :: double where
  "neg_zero = 0x8000000000000000"

definition five :: double where
  "five = 0x4014000000000000"

definition quiet_NaN :: double where
  "quiet_NaN = 0x7FF8000000000000"

datatype NumT = IntVal "32 word" | DoubleVal double

text \<open>
  \<^verbatim>\<open>std::isnan\<close>: an integer argument is converted to a double first and is never a NaN.
\<close>

fun std_isnan :: "NumT \<Rightarrow> bool" where
  "std_isnan (IntVal i) = False"
| "std_isnan (DoubleVal d) = double_isnan d"

text \<open>
  The expression \<^verbatim>\<open>n == 0\<close>: the literal is an \<^verbatim>\<open>int\<close>; against a double it is converted
  to \<open>+0.0\<close> and the doubles are compared.
\<close>

fun eq_zero :: "NumT \<Rightarrow> bool" where
  "eq_zero (IntVal i) = (i = 0)"
| "eq_zero (DoubleVal d) = double_eq d pos_zero"

section \<open>The value classifier\<close>

text \<open>
  \<^verbatim>\<open>
  template<class NumT>
  inline bool isnone(NumT const n, bool const zero_nan=false)
  {
      if (zero_nan) {
          return std::isnan(n) || (n == 0);
      } else {
          return (n == 0);
      }
  }
  \<close>
\<close>

definition isnone :: "NumT \<Rightarrow> bool \<Rightarrow> bool" where
  "isnone n zero_nan = (if zero_nan then std_isnan n \<or> eq_zero n else eq_zero n)"

text \<open>
  A call site: the second argument may be left out, and the declaration's default
  \<^verbatim>\<open>zero_nan=false\<close> is taken then.
\<close>

definition isnone_call :: "NumT \<Rightarrow> bool option \<Rightarrow> bool" where
  "isnone_call n arg = isnone n (case arg of None \<Rightarrow> False | Some zero_nan \<Rightarrow> zero_nan)"

section \<open>Duplicate policies\<close>


subsection \<open>Merging into a dense destination\<close>

text \<open>
  Modelled from the spec: the code that merges a record into a dense destination is
  missing from the sources. Section 4.3 of the spec: "\<open>REPLACE_THEN_ADD\<close>: valid only
  when merging into a dense destination container; if the existing destination value is
  none (per Value Classifier with \<open>zero_nan\<close>), replace it, otherwise add". The two
  outcomes are named, so that which of them is taken can be stated without the
  arithmetic of the value type.
\<close>

datatype dense_step = Replace_existing | Add_to_existing

definition REPLACE_THEN_ADD_step :: "bool \<Rightarrow> NumT \<Rightarrow> dense_step" where
  "REPLACE_THEN_ADD_step zero_nan existing =
     (if isnone existing zero_nan then Replace_existing else Add_to_existing)"

text \<open>
  Modelled from the spec: the dense destination, missing from the sources, is "a
  non-sparse, fully-addressable container" (glossary): a function from coordinate tuples
  to values. The merge changes the cell at the record's coordinates. \<open>add\<close> is the
  \<^verbatim>\<open>+\<close> of the value type.
\<close>

definition merge_dense ::
  "(NumT \<Rightarrow> NumT \<Rightarrow> NumT) \<Rightarrow> bool \<Rightarrow> ('i list \<Rightarrow> NumT) \<Rightarrow> 'i list \<times> NumT
     \<Rightarrow> ('i list \<Rightarrow> NumT)" where
  "merge_dense add zero_nan dest r =
     dest (fst r :=
       (case REPLACE_THEN_ADD_step zero_nan (dest (fst r)) of
          Replace_existing \<Rightarrow> snd r
        | Add_to_existing \<Rightarrow> add (dest (fst r)) (snd r)))"

subsection \<open>Coordinate arrays and the sort engine\<close>





definition valid_permutation :: "nat \<Rightarrow> nat list \<Rightarrow> bool" where
  "valid_permutation n p \<longleftrightarrow> sort p = [0..<n]"


text \<open>
  Modelled from the spec: the precondition of section 4.3, "array should be sorted (by
  any permutation)". \<open>perms\<close> lists the permutations of a list, \<open>interleave\<close> puts an
  element at each position of a list.
\<close>

fun interleave :: "'a \<Rightarrow> 'a list \<Rightarrow> 'a list list" where
  "interleave x [] = [[x]]"
| "interleave x (y # ys) = (x # y # ys) # map ((#) y) (interleave x ys)"

fun perms :: "'a list \<Rightarrow> 'a list list" where
  "perms [] = [[]]"
| "perms (x # xs) = concat (map (interleave x) (perms xs))"



subsection \<open>The consolidator\<close>




section \<open>Exceptions\<close>

text \<open>
  \<^verbatim>\<open>
  class Exception : public std::exception
  {
  public:
      virtual ~Exception() {}
      virtual const char* what() const noexcept
          { return "spsparse::Exception()"; }
  };
  \<close>
  in namespace \<^verbatim>\<open>spsparse\<close>, and the same class with the string \<^verbatim>\<open>"ibmisc::Exception()"\<close>
  in namespace \<^verbatim>\<open>ibmisc\<close>. Neither class declares a data member: each type has one
  value.
\<close>

datatype spsparse_Exception = Spsparse_Exception

datatype ibmisc_Exception = Ibmisc_Exception

fun spsparse_what :: "spsparse_Exception \<Rightarrow> string" where
  "spsparse_what Spsparse_Exception = ''spsparse::Exception()''"

fun ibmisc_what :: "ibmisc_Exception \<Rightarrow> string" where
  "ibmisc_what Ibmisc_Exception = ''ibmisc::Exception()''"

section \<open>Sort-order constants\<close>

text \<open>
  Modelled from the spec: the sources declare the two constants
  (\<^verbatim>\<open>extern const std::array<int,2> ROW_MAJOR;\<close> and \<^verbatim>\<open>COL_MAJOR\<close>) and their values
  are in a file that is not among them. Section 3 of the spec: "row-major [0,1]
  (compare dim 0 first) and column-major [1,0] (compare dim 1 first)".
\<close>

definition ROW_MAJOR :: "int list" where
  "ROW_MAJOR = [0, 1]"

definition COL_MAJOR :: "int list" where
  "COL_MAJOR = [1, 0]"

section \<open>Writing an array to a stream\<close>

text \<open>
  \<^verbatim>\<open>
  template<class T>
  std::ostream &stream(std::ostream &os, T const * const a, int RANK)
  {
      if (RANK == 0) {
          os << "{}";
      } else {
          os << "{";
          for (int k=0; ; ) {
              os << a[k];
              ++k;
              if (k == RANK) break;
              os << ", ";
          }
          os << "}";
      }
      return os;
  }
  \<close>
\<close>

subsection \<open>The output stream\<close>

text \<open>
  What \<^verbatim>\<open>operator<<\<close> depends on and changes in a \<^verbatim>\<open>std::ostream\<close>: the characters
  its sink has received, how many characters the sink takes in all (\<open>None\<close> when it
  has no bound), the field width and the fill character, whether the adjustment is to
  the left, whether the stream is good (no state bit set), and whether a failure is
  thrown as \<^verbatim>\<open>std::ios_base::failure\<close> (the exception mask).
\<close>

record ostream =
  os_text :: string
  os_capacity :: "nat option"
  os_width :: nat
  os_fill :: char
  os_left :: bool
  os_good :: bool
  os_throws :: bool

text \<open>
  A call leaves the regular way with the stream, or it does not: the first three faults
  are undefined behaviour in C++ (a read through a null pointer, a read outside the
  elements the pointer gives, the overflow of an \<^verbatim>\<open>int\<close>), the last is the exception
  of the stream leaving the call.
\<close>

datatype fault = NullDereference | OutOfBounds | SignedOverflow | IosFailure

text \<open>The text of a formatted output, padded with the fill character to the field width.\<close>

definition padded :: "ostream \<Rightarrow> string \<Rightarrow> string" where
  "padded os s =
     (let n = os_width os - length s
      in if os_left os then s @ replicate n (os_fill os) else replicate n (os_fill os) @ s)"

definition accepts :: "ostream \<Rightarrow> string \<Rightarrow> bool" where
  "accepts os s =
     (case os_capacity os of None \<Rightarrow> True | Some c \<Rightarrow> length (os_text os) + length s \<le> c)"

text \<open>\<^verbatim>\<open>setstate\<close> with a failure bit: the stream is not good any more, or the failure is thrown.\<close>

definition setstate_fail :: "ostream \<Rightarrow> fault + ostream" where
  "setstate_fail os = (if os_throws os then Inl IosFailure else Inr (os\<lparr>os_good := False\<rparr>))"

text \<open>
  \<^verbatim>\<open>os << s\<close> for a text \<open>s\<close>, a formatted output function of the standard library. On
  a stream that is not good nothing is written and the failure is recorded. Otherwise
  the padded text goes to the sink and the field width is reset to 0; when the sink
  does not take all of it, it takes what it has room for and the failure is recorded.
\<close>

definition insert_text :: "string \<Rightarrow> ostream \<Rightarrow> fault + ostream" where
  "insert_text s os =
     (if \<not> os_good os then setstate_fail os
      else if accepts os (padded os s)
      then Inr (os\<lparr>os_text := os_text os @ padded os s, os_width := 0\<rparr>)
      else setstate_fail
        (os\<lparr>os_text := os_text os
              @ take (the (os_capacity os) - length (os_text os)) (padded os s),
            os_width := 0\<rparr>))"

subsection \<open>The function\<close>

text \<open>
  The pointer \<open>a\<close> is \<open>None\<close> when null and else the elements that may be read
  through it. \<open>put x\<close> is the text that \<^verbatim>\<open>operator<<\<close> of the element type formats
  the element \<open>x\<close> to; the operator is a formatted output function like those of the
  standard library.
\<close>

definition INT_MAX :: int where
  "INT_MAX = 2147483647"

fun read_elem :: "'a list option \<Rightarrow> int \<Rightarrow> fault + 'a" where
  "read_elem None k = Inl NullDereference"
| "read_elem (Some xs) k =
     (if 0 \<le> k \<and> k < int (length xs) then Inr (xs ! nat k) else Inl OutOfBounds)"

text \<open>The \<^verbatim>\<open>for\<close> loop, entered with the counter at \<open>k\<close>.\<close>

function stream_loop ::
  "('a \<Rightarrow> string) \<Rightarrow> 'a list option \<Rightarrow> int \<Rightarrow> ostream \<Rightarrow> int \<Rightarrow> fault + ostream"
where
  "stream_loop put a RANK os k =
     (case read_elem a k of
        Inl f \<Rightarrow> Inl f
      | Inr x \<Rightarrow>
          (case insert_text (put x) os of
             Inl f \<Rightarrow> Inl f
           | Inr os1 \<Rightarrow>
               if k = INT_MAX then Inl SignedOverflow
               else if k + 1 = RANK then Inr os1
               else (case insert_text '', '' os1 of
                       Inl f \<Rightarrow> Inl f
                     | Inr os2 \<Rightarrow> stream_loop put a RANK os2 (k + 1))))"
  by pat_completeness auto
termination
proof (relation "measure (\<lambda>(put, a, RANK, os, k).
    case a of None \<Rightarrow> 0 | Some xs \<Rightarrow> nat (int (length xs) - k))")
  show "wf (measure (\<lambda>(put :: 'a \<Rightarrow> string, a, RANK :: int, os :: ostream, k).
      case a of None \<Rightarrow> 0 | Some xs \<Rightarrow> nat (int (length xs) - k)))"
    by simp
next
  fix put :: "'a \<Rightarrow> string" and a RANK and os :: ostream and k x os1 os2
  assume "read_elem a k = Inr x"
  then show "((put, a, RANK, os2, k + 1), (put, a, RANK, os, k))
    \<in> measure (\<lambda>(put, a, RANK, os, k).
        case a of None \<Rightarrow> 0 | Some xs \<Rightarrow> nat (int (length xs) - k))"
    by (cases a) (auto split: if_splits)
qed

declare stream_loop.simps [simp del]

definition stream ::
  "('a \<Rightarrow> string) \<Rightarrow> ostream \<Rightarrow> 'a list option \<Rightarrow> int \<Rightarrow> fault + ostream" where
  "stream put os a RANK =
     (if RANK = 0 then insert_text ''{}'' os
      else case insert_text ''{'' os of
             Inl f \<Rightarrow> Inl f
           | Inr os1 \<Rightarrow>
               (case stream_loop put a RANK os1 0 of
                  Inl f \<Rightarrow> Inl f
                | Inr os2 \<Rightarrow> insert_text ''}'' os2))"

section \<open>Notions the properties are stated with\<close>

text \<open>What "the value is zero" means for each representation, independent of \<^verbatim>\<open>==\<close>.\<close>

fun is_zero_value :: "NumT \<Rightarrow> bool" where
  "is_zero_value (IntVal i) = (i = 0)"
| "is_zero_value (DoubleVal d) = (d = pos_zero \<or> d = neg_zero)"

text \<open>Texts separated by a comma and a blank.\<close>

fun joined :: "string list \<Rightarrow> string" where
  "joined [] = []"
| "joined [s] = s"
| "joined (s # t # ts) = s @ '', '' @ joined (t # ts)"

text \<open>A stream as it is after its construction, with a sink that has no bound.\<close>

definition initial_ostream :: ostream where
  "initial_ostream = \<lparr>os_text = [], os_capacity = None, os_width = 0, os_fill = CHR '' '',
     os_left = False, os_good = True, os_throws = False\<rparr>"








section \<open>Facts about doubles\<close>

lemma mask_11: "(0x7FF :: 64 word) = mask 11"
  by (simp add: mask_eq_exp_minus_1)

lemma mask_52: "(0xFFFFFFFFFFFFF :: 64 word) = mask 52"
  by (simp add: mask_eq_exp_minus_1)

lemma double_iszero_pos_zero: "double_iszero pos_zero"
  by (simp add: double_iszero_def exponent_bits_def fraction_bits_def pos_zero_def)

lemma double_iszero_neg_zero: "double_iszero neg_zero"
  by (simp add: double_iszero_def exponent_bits_def fraction_bits_def neg_zero_def)

lemma double_isnan_quiet_NaN: "double_isnan quiet_NaN"
  by (simp add: double_isnan_def exponent_bits_def fraction_bits_def quiet_NaN_def)

lemma not_double_isnan_five: "\<not> double_isnan five"
  by (simp add: double_isnan_def exponent_bits_def fraction_bits_def five_def)

lemma not_double_iszero_five: "\<not> double_iszero five"
  by (simp add: double_iszero_def exponent_bits_def fraction_bits_def five_def)

lemma double_iszero_not_nan: "double_iszero d \<Longrightarrow> \<not> double_isnan d"
  by (simp add: double_iszero_def double_isnan_def)

text \<open>A zero is a pattern whose 63 low bits are all clear.\<close>

lemma double_iszero_bits: "double_iszero d \<longleftrightarrow> (\<forall>n < 63. \<not> bit d n)"
proof
  assume z: "double_iszero d"
  show "\<forall>n < 63. \<not> bit d n"
  proof (intro allI impI)
    fix n :: nat
    assume n: "n < 63"
    show "\<not> bit d n"
    proof (cases "n < 52")
      case True
      from z have "fraction_bits d = 0"
        by (simp add: double_iszero_def)
      then have "\<not> bit (d AND mask 52) n"
        by (simp add: fraction_bits_def mask_52)
      with True show ?thesis
        by (simp add: bit_and_iff bit_mask_iff)
    next
      case False
      from z have "exponent_bits d = 0"
        by (simp add: double_iszero_def)
      then have "\<not> bit (drop_bit 52 d AND mask 11) (n - 52)"
        by (simp add: exponent_bits_def mask_11)
      with False n show ?thesis
        by (auto simp: bit_and_iff bit_mask_iff bit_drop_bit_eq)
    qed
  qed
next
  assume low: "\<forall>n < 63. \<not> bit d n"
  have "fraction_bits d = 0"
    unfolding fraction_bits_def mask_52 using low
    by (auto simp: bit_eq_iff bit_and_iff bit_mask_iff)
  moreover have "exponent_bits d = 0"
    unfolding exponent_bits_def mask_11 using low
    by (auto simp: bit_eq_iff bit_and_iff bit_mask_iff bit_drop_bit_eq)
  ultimately show "double_iszero d"
    by (simp add: double_iszero_def)
qed

lemma bit_sign_pattern: "bit (0x8000000000000000 :: 64 word) n \<longleftrightarrow> n = 63"
proof -
  have "(0x8000000000000000 :: 64 word) = 2 ^ 63"
    by simp
  then have "bit (0x8000000000000000 :: 64 word) n \<longleftrightarrow> bit (2 ^ 63 :: 64 word) n"
    by (simp only:)
  also have "\<dots> \<longleftrightarrow> n = 63"
    by (simp only: bit_exp_iff possible_bit_word) auto
  finally show ?thesis .
qed

text \<open>So there are exactly two zeros, \<open>+0.0\<close> and \<open>-0.0\<close>.\<close>

lemma double_iszero_iff: "double_iszero d \<longleftrightarrow> d = pos_zero \<or> d = neg_zero"
proof
  assume "double_iszero d"
  then have low: "\<And>n. n < 63 \<Longrightarrow> \<not> bit d n"
    by (simp add: double_iszero_bits)
  show "d = pos_zero \<or> d = neg_zero"
  proof (cases "bit d 63")
    case True
    have "d = 0x8000000000000000"
    proof (rule bit_eqI)
      fix n
      assume "possible_bit TYPE(64 word) n"
      then have n: "n < 64"
        by (simp add: possible_bit_def)
      show "bit d n = bit (0x8000000000000000 :: 64 word) n"
      proof (cases "n = 63")
        case True
        with \<open>bit d 63\<close> show ?thesis
          unfolding bit_sign_pattern by simp
      next
        case False
        with n have "n < 63"
          by simp
        with low False show ?thesis
          unfolding bit_sign_pattern by simp
      qed
    qed
    then show ?thesis
      by (simp add: neg_zero_def)
  next
    case False
    have "d = 0"
    proof (rule bit_eqI)
      fix n
      assume "possible_bit TYPE(64 word) n"
      then have n: "n < 64"
        by (simp add: possible_bit_def)
      show "bit d n = bit (0 :: 64 word) n"
      proof (cases "n = 63")
        case True
        with False show ?thesis
          by simp
      next
        case ne: False
        with n have "n < 63"
          by simp
        with low show ?thesis
          by simp
      qed
    qed
    then show ?thesis
      by (simp add: pos_zero_def)
  qed
next
  assume "d = pos_zero \<or> d = neg_zero"
  then show "double_iszero d"
    using double_iszero_pos_zero double_iszero_neg_zero by auto
qed

lemma double_eq_pos_zero: "double_eq d pos_zero \<longleftrightarrow> double_iszero d"
  using double_iszero_not_nan [of d] double_iszero_not_nan [of pos_zero]
    double_iszero_pos_zero
  by (auto simp: double_eq_def)

lemma eq_zero_iff: "eq_zero n \<longleftrightarrow> is_zero_value n"
  by (cases n) (simp_all add: double_eq_pos_zero double_iszero_iff)

lemma zero_not_nan: "is_zero_value n \<Longrightarrow> \<not> std_isnan n"
  by (cases n) (auto simp flip: double_iszero_iff dest: double_iszero_not_nan)

text \<open>Doubles that compare equal with \<^verbatim>\<open>==\<close> are both NaN-free and are zero together.\<close>

lemma double_eq_same_class:
  assumes "double_eq a b"
  shows "double_isnan a = double_isnan b" and "double_iszero a = double_iszero b"
  using assms by (auto simp: double_eq_def)

section \<open>The classifier's contract\<close>

text \<open>
  Claim C1. With \<open>zero_nan\<close> true, \<open>isnone\<close> holds of a value exactly when the value is a
  NaN or is zero (for a double: \<open>+0.0\<close> or \<open>-0.0\<close>). In particular it holds of the NaN
  and fails for \<open>5.0\<close>.
\<close>

theorem isnone_zero_nan_true:
  "(isnone n True \<longleftrightarrow> std_isnan n \<or> is_zero_value n)
   \<and> isnone (DoubleVal quiet_NaN) True = True
   \<and> isnone (DoubleVal five) True = False"
proof (intro conjI)
  show "isnone n True \<longleftrightarrow> std_isnan n \<or> is_zero_value n"
    by (simp add: isnone_def eq_zero_iff)
  show "isnone (DoubleVal quiet_NaN) True = True"
    by (simp add: isnone_def double_isnan_quiet_NaN)
  show "isnone (DoubleVal five) True = False"
    by (simp add: isnone_def not_double_isnan_five double_eq_pos_zero not_double_iszero_five)
qed

text \<open>
  Claim C2. With \<open>zero_nan\<close> false, \<open>isnone\<close> holds of a value exactly when the value is
  zero. It holds of \<open>0.0\<close>, it fails for the NaN, and no NaN at all is classified as
  none.
\<close>

theorem isnone_zero_nan_false:
  "(isnone n False \<longleftrightarrow> is_zero_value n)
   \<and> isnone (DoubleVal pos_zero) False = True
   \<and> isnone (DoubleVal quiet_NaN) False = False
   \<and> \<not> (std_isnan n \<and> isnone n False)"
proof (intro conjI)
  show "isnone n False \<longleftrightarrow> is_zero_value n"
    by (simp add: isnone_def eq_zero_iff)
  show "isnone (DoubleVal pos_zero) False = True"
    by (simp add: isnone_def double_eq_pos_zero double_iszero_pos_zero)
  have "\<not> double_iszero quiet_NaN"
    using double_iszero_not_nan [of quiet_NaN] double_isnan_quiet_NaN by blast
  then show "isnone (DoubleVal quiet_NaN) False = False"
    by (simp add: isnone_def double_eq_pos_zero)
  show "\<not> (std_isnan n \<and> isnone n False)"
    using zero_not_nan [of n] by (auto simp: isnone_def eq_zero_iff)
qed

text \<open>
  Doubles that are equal in the sense of \<^verbatim>\<open>==\<close> are classified alike, also when they are
  not the same pattern (\<open>+0.0\<close> and \<open>-0.0\<close>).
\<close>

lemma isnone_double_eq:
  assumes "double_eq a b"
  shows "isnone (DoubleVal a) z = isnone (DoubleVal b) z"
proof -
  have "double_eq a pos_zero = double_eq b pos_zero"
    using double_eq_same_class(2) [OF assms] by (simp add: double_eq_pos_zero)
  with double_eq_same_class(1) [OF assms] show ?thesis
    by (simp add: isnone_def)
qed

text \<open>
  Claim C8. A call that leaves the \<open>zero_nan\<close> argument out is the call with \<open>zero_nan\<close>
  false: it holds exactly of the zero values and of no NaN.
\<close>

theorem isnone_default_argument:
  "isnone_call n None = isnone n False
   \<and> isnone_call n None = isnone_call n (Some False)
   \<and> (isnone_call n None \<longleftrightarrow> is_zero_value n)
   \<and> \<not> (std_isnan n \<and> isnone_call n None)"
  using zero_not_nan [of n]
  by (auto simp: isnone_call_def isnone_def eq_zero_iff)

section \<open>The exceptions\<close>

text \<open>
  Claim C6. \<open>what()\<close> of the spsparse exception is the text \<open>spsparse::Exception()\<close> and
  \<open>what()\<close> of the ibmisc exception is the text \<open>ibmisc::Exception()\<close>, for every
  exception object, so any two calls agree; and an exception object carries nothing
  else: any two objects of a type are equal.
\<close>

theorem what_fixed:
  "spsparse_what e = ''spsparse::Exception()''
   \<and> ibmisc_what f = ''ibmisc::Exception()''
   \<and> spsparse_what e = spsparse_what e'
   \<and> ibmisc_what f = ibmisc_what f'
   \<and> e = e' \<and> f = f'"
  by (cases e; cases e'; cases f; cases f') simp

section \<open>The sort-order constants\<close>

text \<open>
  Claim C5. \<open>ROW_MAJOR\<close> is \<open>[0,1]\<close> and compares dimension 0 first, \<open>COL_MAJOR\<close> is
  \<open>[1,0]\<close> and compares dimension 1 first, and each, read as the map from a position to
  the dimension at it, is a bijection on \<open>{0,1}\<close>.
\<close>

theorem sort_order_constants:
  "ROW_MAJOR = [0, 1] \<and> COL_MAJOR = [1, 0]
   \<and> hd ROW_MAJOR = 0 \<and> hd COL_MAJOR = 1
   \<and> bij_betw (\<lambda>k. ROW_MAJOR ! nat k) {0, 1} {0, 1}
   \<and> bij_betw (\<lambda>k. COL_MAJOR ! nat k) {0, 1} {0, 1}"
proof -
  have row: "bij_betw (\<lambda>k. ROW_MAJOR ! nat k) {0, 1} {0, 1}"
    by (simp add: bij_betw_def ROW_MAJOR_def)
  have col: "bij_betw (\<lambda>k. COL_MAJOR ! nat k) {0, 1} {0, 1}"
    by (auto simp: bij_betw_def COL_MAJOR_def)
  from row col show ?thesis
    by (simp add: ROW_MAJOR_def COL_MAJOR_def)
qed

section \<open>The stream helper\<close>

lemma accepts_append:
  "accepts os (s @ t) \<Longrightarrow> accepts os s"
  "accepts os (s @ t) \<Longrightarrow> accepts (os\<lparr>os_text := os_text os @ s\<rparr>) t"
  by (auto simp: accepts_def split: option.splits)

lemma insert_text_plain:
  "os_good os \<Longrightarrow> os_width os = 0 \<Longrightarrow> accepts os s \<Longrightarrow>
   insert_text s os = Inr (os\<lparr>os_text := os_text os @ s\<rparr>)"
  by (simp add: insert_text_def padded_def)

lemma joined_Cons: "joined (s # ss) = (if ss = [] then s else s @ '', '' @ joined ss)"
  by (cases ss) simp_all

lemma take_drop_step:
  assumes "i < length xs"
  shows "take (Suc n) (drop i xs) = xs ! i # take n (drop (Suc i) xs)"
  using assms by (simp flip: Cons_nth_drop_Suc)

text \<open>
  The loop entered at \<open>k\<close> with \<open>n + 1\<close> elements still to write, on a good stream of
  field width 0 whose sink takes the text: it writes the elements, with the separator
  between them, and leaves.
\<close>

lemma stream_loop_writes:
  "n = nat (RANK - k - 1) \<Longrightarrow> 0 \<le> k \<Longrightarrow> k < RANK \<Longrightarrow> RANK \<le> int (length xs) \<Longrightarrow>
   RANK \<le> INT_MAX \<Longrightarrow> os_good os \<Longrightarrow> os_width os = 0 \<Longrightarrow>
   accepts os (joined (map put (take (Suc n) (drop (nat k) xs)))) \<Longrightarrow>
   stream_loop put (Some xs) RANK os k
     = Inr (os\<lparr>os_text := os_text os @ joined (map put (take (Suc n) (drop (nat k) xs)))\<rparr>)"
proof (induction n arbitrary: k os)
  case 0
  then have last: "k + 1 = RANK" and inb: "nat k < length xs" and nmax: "k \<noteq> INT_MAX"
    by auto
  from 0 inb have rd: "read_elem (Some xs) k = Inr (xs ! nat k)"
    by simp
  have tk: "take (Suc 0) (drop (nat k) xs) = [xs ! nat k]"
    using inb by (simp add: take_drop_step)
  with 0 have "insert_text (put (xs ! nat k)) os
      = Inr (os\<lparr>os_text := os_text os @ put (xs ! nat k)\<rparr>)"
    by (intro insert_text_plain) simp_all
  with rd last nmax tk show ?case
    by (subst stream_loop.simps) simp
next
  case (Suc n)
  then have more: "k + 1 \<noteq> RANK" and inb: "nat k < length xs" and nmax: "k \<noteq> INT_MAX"
    and inb': "Suc (nat k) < length xs"
    by auto
  let ?x = "xs ! nat k"
  let ?rest = "joined (map put (take (Suc n) (drop (Suc (nat k)) xs)))"
  from Suc inb have rd: "read_elem (Some xs) k = Inr ?x"
    by simp
  have k1: "nat (k + 1) = Suc (nat k)"
    using Suc.prems by simp
  have ne: "take (Suc n) (drop (Suc (nat k)) xs) \<noteq> []"
    using inb' by simp
  have split: "joined (map put (take (Suc (Suc n)) (drop (nat k) xs)))
      = put ?x @ '', '' @ ?rest"
    using inb ne by (simp only: take_drop_step list.map joined_Cons map_is_Nil_conv if_False)
  with Suc.prems have acc: "accepts os (put ?x @ '', '' @ ?rest)"
    by simp
  let ?os1 = "os\<lparr>os_text := os_text os @ put ?x\<rparr>"
  let ?os2 = "?os1\<lparr>os_text := os_text ?os1 @ '', ''\<rparr>"
  have i1: "insert_text (put ?x) os = Inr ?os1"
    using Suc.prems accepts_append(1) [OF acc] by (intro insert_text_plain) simp_all
  have acc1: "accepts ?os1 ('', '' @ ?rest)"
    using accepts_append(2) [OF acc] .
  have i2: "insert_text '', '' ?os1 = Inr ?os2"
    using Suc.prems accepts_append(1) [OF acc1] by (intro insert_text_plain) simp_all
  have acc2: "accepts ?os2 ?rest"
    using accepts_append(2) [OF acc1] .
  have step: "stream_loop put (Some xs) RANK ?os2 (k + 1)
      = Inr (?os2\<lparr>os_text :=
          os_text ?os2 @ joined (map put (take (Suc n) (drop (nat (k + 1)) xs)))\<rparr>)"
    using Suc.prems acc2 by (intro Suc.IH) (auto simp: k1)
  have "stream_loop put (Some xs) RANK os k = stream_loop put (Some xs) RANK ?os2 (k + 1)"
    by (subst stream_loop.simps) (simp only: rd i1 i2 more nmax sum.case if_False)
  also note step
  finally show ?case
    by (simp add: k1 split)
qed

lemma insert_text_no_read_fault:
  "insert_text s os \<noteq> Inl NullDereference" "insert_text s os \<noteq> Inl OutOfBounds"
  by (auto simp: insert_text_def setstate_fail_def)

text \<open>
  Once the counter is at or past \<open>RANK\<close> the test \<^verbatim>\<open>k == RANK\<close> cannot succeed any more,
  since the counter only grows: the loop has no regular exit.
\<close>

lemma stream_loop_no_exit:
  "RANK \<le> k \<Longrightarrow> \<exists>f. stream_loop put a RANK os k = Inl f"
proof (induction put a RANK os k rule: stream_loop.induct)
  case (1 put a RANK os k)
  show ?case
  proof (cases "read_elem a k")
    case (Inl f)
    then show ?thesis
      by (subst stream_loop.simps) simp
  next
    case rd: (Inr x)
    show ?thesis
    proof (cases "insert_text (put x) os")
      case (Inl f)
      with rd show ?thesis
        by (subst stream_loop.simps) simp
    next
      case i1: (Inr os1)
      show ?thesis
      proof (cases "k = INT_MAX")
        case True
        with rd i1 show ?thesis
          by (subst stream_loop.simps) simp
      next
        case False
        from "1.prems" have ne: "k + 1 \<noteq> RANK" and le: "RANK \<le> k + 1"
          by simp_all
        show ?thesis
        proof (cases "insert_text '', '' os1")
          case (Inl f)
          with rd i1 False ne show ?thesis
            by (subst stream_loop.simps) simp
        next
          case i2: (Inr os2)
          from "1.IH" [OF rd i1 False ne i2 le]
          obtain f where "stream_loop put a RANK os2 (k + 1) = Inl f"
            by blast
          with rd i1 False ne i2 show ?thesis
            by (subst stream_loop.simps) simp
        qed
      qed
    qed
  qed
qed

text \<open>
  Whatever the state of the stream, the loop over elements that can be read ends, and
  without undefined behaviour: it returns, or the stream throws.
\<close>

lemma stream_loop_safe:
  "n = nat (RANK - k - 1) \<Longrightarrow> 0 \<le> k \<Longrightarrow> k < RANK \<Longrightarrow> RANK \<le> int (length xs) \<Longrightarrow>
   RANK \<le> INT_MAX \<Longrightarrow>
   (\<exists>os'. stream_loop put (Some xs) RANK os k = Inr os')
   \<or> stream_loop put (Some xs) RANK os k = Inl IosFailure"
proof (induction n arbitrary: k os)
  case 0
  then have last: "k + 1 = RANK" and rd: "read_elem (Some xs) k = Inr (xs ! nat k)"
    and nmax: "k \<noteq> INT_MAX"
    by auto
  have ins: "(\<exists>os'. insert_text (put (xs ! nat k)) os = Inr os')
      \<or> insert_text (put (xs ! nat k)) os = Inl IosFailure"
    by (auto simp: insert_text_def setstate_fail_def)
  show ?case
  proof (cases "insert_text (put (xs ! nat k)) os")
    case (Inl f)
    with ins have "f = IosFailure"
      by auto
    with Inl rd show ?thesis
      by (subst (1 2) stream_loop.simps) (simp only: sum.case simp_thms)
  next
    case (Inr os1)
    with rd last nmax have "stream_loop put (Some xs) RANK os k = Inr os1"
      by (subst stream_loop.simps) (simp only: sum.case if_True if_False simp_thms)
    then show ?thesis
      by blast
  qed
next
  case (Suc n)
  then have more: "k + 1 \<noteq> RANK" and rd: "read_elem (Some xs) k = Inr (xs ! nat k)"
    and nmax: "k \<noteq> INT_MAX"
    by auto
  have ih: "\<And>os2. (\<exists>os'. stream_loop put (Some xs) RANK os2 (k + 1) = Inr os')
      \<or> stream_loop put (Some xs) RANK os2 (k + 1) = Inl IosFailure"
    using Suc.prems by (intro Suc.IH) auto
  have ins: "\<And>s os0. (\<exists>os'. insert_text s os0 = Inr os')
      \<or> insert_text s os0 = Inl IosFailure"
    by (auto simp: insert_text_def setstate_fail_def)
  show ?case
  proof (cases "insert_text (put (xs ! nat k)) os")
    case (Inl f)
    with ins [of "put (xs ! nat k)" os] have "f = IosFailure"
      by auto
    with Inl rd show ?thesis
      by (subst (1 2) stream_loop.simps) simp
  next
    case i1: (Inr os1)
    show ?thesis
    proof (cases "insert_text '', '' os1")
      case (Inl f)
      with ins [of "'', ''" os1] have "f = IosFailure"
        by auto
      with Inl i1 rd more nmax show ?thesis
        by (subst (1 2) stream_loop.simps) simp
    next
      case i2: (Inr os2)
      have "stream_loop put (Some xs) RANK os k = stream_loop put (Some xs) RANK os2 (k + 1)"
        by (subst stream_loop.simps) (simp only: rd i1 i2 more nmax sum.case if_False)
      with ih [of os2] show ?thesis
        by simp
    qed
  qed
qed

text \<open>
  Claim C9 has the text \<open>{}\<close> written whatever the stream is. On a stream whose field
  width is 5 the call writes three fill characters and then the braces, and on a stream
  that is not good it writes nothing.
\<close>

theorem stream_rank_zero_counterexample:
  "stream (\<lambda>t. t) (initial_ostream\<lparr>os_width := 5\<rparr>) (Some [''1'']) 0
     = Inr (initial_ostream\<lparr>os_text := ''   {}''\<rparr>)
   \<and> stream (\<lambda>t. t) (initial_ostream\<lparr>os_good := False\<rparr>) (Some [''1'']) 0
     = Inr (initial_ostream\<lparr>os_good := False\<rparr>)"
  by (simp add: stream_def insert_text_def padded_def accepts_def setstate_fail_def
      initial_ostream_def eval_nat_numeral)

text \<open>
  Claim C9, amended. With \<open>RANK\<close> zero, on a stream that is good, has field width 0
  and whose sink takes two more characters, \<open>stream\<close> writes the text \<open>{}\<close> and
  nothing else, and changes nothing else of the stream. Whatever the stream and the
  array pointer are, the call is the same as with the null pointer, through which every
  read is a fault, and it ends in no fault of a read: no element is read, and a null or
  empty array pointer is acceptable.
\<close>

theorem stream_rank_zero:
  "(os_good os \<and> os_width os = 0 \<and> accepts os ''{}'' \<longrightarrow>
      stream put os a 0 = Inr (os\<lparr>os_text := os_text os @ ''{}''\<rparr>))
   \<and> stream put os a 0 = stream put os None 0
   \<and> stream put os a 0 \<noteq> Inl NullDereference
   \<and> stream put os a 0 \<noteq> Inl OutOfBounds
   \<and> read_elem (None :: 'a list option) k = Inl NullDereference"
  by (simp add: stream_def insert_text_plain insert_text_no_read_fault)

theorem stream_rank_zero_witness:
  "os_good initial_ostream \<and> os_width initial_ostream = 0 \<and> accepts initial_ostream ''{}''
   \<and> stream (\<lambda>t. t) initial_ostream (None :: string list option) 0
       = Inr (initial_ostream\<lparr>os_text := ''{}''\<rparr>)"
  using stream_rank_zero [of initial_ostream "\<lambda>t. t" "None :: string list option"]
  by (simp add: initial_ostream_def accepts_def)

text \<open>
  Claim C10 has the bracketed list written whatever the stream is. On a stream whose
  field width is 5 the call writes four fill characters before the opening brace, and on
  a stream that is not good it writes nothing.
\<close>

theorem stream_rank_positive_counterexample:
  "stream (\<lambda>t. t) (initial_ostream\<lparr>os_width := 5\<rparr>) (Some [''1'', ''22'']) 2
     = Inr (initial_ostream\<lparr>os_text := ''    {1, 22}''\<rparr>)
   \<and> stream (\<lambda>t. t) (initial_ostream\<lparr>os_good := False\<rparr>) (Some [''1'', ''22'']) 2
     = Inr (initial_ostream\<lparr>os_good := False\<rparr>)"
  by (simp add: stream_def stream_loop.simps insert_text_def padded_def accepts_def
      setstate_fail_def initial_ostream_def INT_MAX_def eval_nat_numeral)

text \<open>
  Claim C10, amended. For a \<open>RANK\<close> of at least one (an \<^verbatim>\<open>int\<close>, so at most
  \<open>INT_MAX\<close>) and an array of at least \<open>RANK\<close> readable elements: on a stream that is
  good, has field width 0 and whose sink takes the text, \<open>stream\<close> returns the stream it
  was given with \<open>{\<close>, the elements 0 to \<open>RANK - 1\<close> in order with \<open>, \<close> between
  them, and \<open>}\<close> written to it; and whatever the state of the stream, the call ends
  without undefined behaviour, by returning or by the exception of the stream. For a
  negative \<open>RANK\<close> the exit test of the loop never succeeds: the call has no regular
  return, whatever the array and the stream.
\<close>

theorem stream_rank_positive:
  "(1 \<le> RANK \<and> RANK \<le> INT_MAX \<and> RANK \<le> int (length xs) \<and> os_good os \<and> os_width os = 0
      \<and> accepts os (''{'' @ joined (map put (take (nat RANK) xs)) @ ''}'') \<longrightarrow>
      stream put os (Some xs) RANK
        = Inr (os\<lparr>os_text :=
            os_text os @ ''{'' @ joined (map put (take (nat RANK) xs)) @ ''}''\<rparr>))
   \<and> (1 \<le> RANK \<and> RANK \<le> INT_MAX \<and> RANK \<le> int (length xs) \<longrightarrow>
      (\<exists>os'. stream put os (Some xs) RANK = Inr os')
      \<or> stream put os (Some xs) RANK = Inl IosFailure)
   \<and> (RANK < 0 \<longrightarrow> (\<exists>f. stream put os a RANK = Inl f))"
proof (intro conjI impI)
  let ?body = "joined (map put (take (nat RANK) xs))"
  assume h: "1 \<le> RANK \<and> RANK \<le> INT_MAX \<and> RANK \<le> int (length xs) \<and> os_good os
    \<and> os_width os = 0 \<and> accepts os (''{'' @ ?body @ ''}'')"
  then have n: "Suc (nat (RANK - 0 - 1)) = nat RANK"
    by arith
  let ?os1 = "os\<lparr>os_text := os_text os @ ''{''\<rparr>"
  let ?os2 = "?os1\<lparr>os_text := os_text ?os1 @ ?body\<rparr>"
  from h have acc: "accepts os (''{'' @ ?body @ ''}'')"
    by simp
  have i1: "insert_text ''{'' os = Inr ?os1"
    using h accepts_append(1) [OF acc] by (intro insert_text_plain) simp_all
  have acc1: "accepts ?os1 (?body @ ''}'')"
    using accepts_append(2) [OF acc] .
  have lp: "stream_loop put (Some xs) RANK ?os1 0 = Inr ?os2"
    using h n accepts_append(1) [OF acc1]
      stream_loop_writes [of "nat (RANK - 0 - 1)" RANK 0 xs ?os1 put]
    by simp
  have i3: "insert_text ''}'' ?os2 = Inr (?os2\<lparr>os_text := os_text ?os2 @ ''}''\<rparr>)"
    using h accepts_append(2) [OF acc1] by (intro insert_text_plain) simp_all
  from h i1 lp i3 show "stream put os (Some xs) RANK
      = Inr (os\<lparr>os_text := os_text os @ ''{'' @ ?body @ ''}''\<rparr>)"
    by (simp add: stream_def)
next
  assume h: "1 \<le> RANK \<and> RANK \<le> INT_MAX \<and> RANK \<le> int (length xs)"
  have ins: "\<And>s os0. (\<exists>os'. insert_text s os0 = Inr os')
      \<or> insert_text s os0 = Inl IosFailure"
    by (auto simp: insert_text_def setstate_fail_def)
  have lp: "\<And>os1. (\<exists>os'. stream_loop put (Some xs) RANK os1 0 = Inr os')
      \<or> stream_loop put (Some xs) RANK os1 0 = Inl IosFailure"
    using h by (intro stream_loop_safe [of "nat (RANK - 0 - 1)"]) auto
  show "(\<exists>os'. stream put os (Some xs) RANK = Inr os')
      \<or> stream put os (Some xs) RANK = Inl IosFailure"
  proof (cases "insert_text ''{'' os")
    case (Inl f)
    with ins [of "''{''" os] h show ?thesis
      by (auto simp: stream_def)
  next
    case i1: (Inr os1)
    show ?thesis
    proof (cases "stream_loop put (Some xs) RANK os1 0")
      case (Inl f)
      with lp [of os1] i1 h show ?thesis
        by (auto simp: stream_def)
    next
      case (Inr os2)
      with ins [of "''}''" os2] i1 h show ?thesis
        by (auto simp: stream_def)
    qed
  qed
next
  assume neg: "RANK < 0"
  show "\<exists>f. stream put os a RANK = Inl f"
  proof (cases "insert_text ''{'' os")
    case (Inl f)
    with neg show ?thesis
      by (simp add: stream_def)
  next
    case (Inr os1)
    from neg obtain f where "stream_loop put a RANK os1 0 = Inl f"
      using stream_loop_no_exit [of RANK 0 put a os1] by auto
    with neg Inr show ?thesis
      by (simp add: stream_def)
  qed
qed

theorem stream_rank_positive_witness:
  "(1 :: int) \<le> 3 \<and> 3 \<le> INT_MAX \<and> 3 \<le> int (length [''1'', ''22'', ''333'', ''4444''])
   \<and> os_good initial_ostream \<and> os_width initial_ostream = 0
   \<and> accepts initial_ostream ''{1, 22, 333}''
   \<and> stream (\<lambda>t. t) initial_ostream (Some [''1'', ''22'', ''333'', ''4444'']) 3
       = Inr (initial_ostream\<lparr>os_text := ''{1, 22, 333}''\<rparr>)
   \<and> (-1 :: int) < 0
   \<and> (\<exists>f. stream (\<lambda>t. t) initial_ostream (Some [''1'', ''22'', ''333'', ''4444'']) (-1) = Inl f)"
  using stream_rank_positive
      [of 3 "[''1'', ''22'', ''333'', ''4444'']" initial_ostream "\<lambda>t. t"]
    stream_rank_positive [of "-1" "[]" initial_ostream "\<lambda>t. t"
      "Some [''1'', ''22'', ''333'', ''4444'']"]
  by (simp add: INT_MAX_def initial_ostream_def accepts_def)

section \<open>Duplicate policies\<close>

subsection \<open>\<open>REPLACE_THEN_ADD\<close> into a dense destination\<close>

text \<open>
  Claim C3. Under \<open>REPLACE_THEN_ADD\<close>, when a record is merged into a dense
  destination, the incoming value replaces the value the destination holds at the
  record's coordinates if \<open>isnone\<close> with the given \<open>zero_nan\<close> flag holds of that
  value, and is added to it otherwise; the other cells of the destination stay as they
  are. So the value is replaced exactly when it is zero, or is a NaN and \<open>zero_nan\<close> is
  true.
\<close>

theorem REPLACE_THEN_ADD_dense:
  "(isnone existing zero_nan \<longrightarrow> REPLACE_THEN_ADD_step zero_nan existing = Replace_existing)
   \<and> (\<not> isnone existing zero_nan \<longrightarrow>
        REPLACE_THEN_ADD_step zero_nan existing = Add_to_existing)
   \<and> merge_dense add zero_nan dest (i, v) i
       = (if isnone (dest i) zero_nan then v else add (dest i) v)
   \<and> (j \<noteq> i \<longrightarrow> merge_dense add zero_nan dest (i, v) j = dest j)
   \<and> (REPLACE_THEN_ADD_step zero_nan existing = Replace_existing
        \<longleftrightarrow> is_zero_value existing \<or> (zero_nan \<and> std_isnan existing))"
proof (intro conjI impI)
  assume "isnone existing zero_nan"
  then show "REPLACE_THEN_ADD_step zero_nan existing = Replace_existing"
    by (simp add: REPLACE_THEN_ADD_step_def)
next
  assume "\<not> isnone existing zero_nan"
  then show "REPLACE_THEN_ADD_step zero_nan existing = Add_to_existing"
    by (simp add: REPLACE_THEN_ADD_step_def)
next
  show "merge_dense add zero_nan dest (i, v) i
      = (if isnone (dest i) zero_nan then v else add (dest i) v)"
    by (simp add: merge_dense_def REPLACE_THEN_ADD_step_def)
next
  assume "j \<noteq> i"
  then show "merge_dense add zero_nan dest (i, v) j = dest j"
    by (simp add: merge_dense_def)
next
  show "REPLACE_THEN_ADD_step zero_nan existing = Replace_existing
      \<longleftrightarrow> is_zero_value existing \<or> (zero_nan \<and> std_isnan existing)"
    by (auto simp: REPLACE_THEN_ADD_step_def isnone_def eq_zero_iff)
qed

theorem REPLACE_THEN_ADD_dense_witness:
  "isnone (DoubleVal pos_zero) False
   \<and> REPLACE_THEN_ADD_step False (DoubleVal pos_zero) = Replace_existing
   \<and> \<not> isnone (DoubleVal five) True
   \<and> REPLACE_THEN_ADD_step True (DoubleVal five) = Add_to_existing
   \<and> merge_dense (\<lambda>a b. a) True (\<lambda>c. DoubleVal quiet_NaN) ([1 :: int, 1], DoubleVal five) [1, 1]
       = DoubleVal five
   \<and> [0 :: int, 0] \<noteq> [1, 1]
   \<and> merge_dense (\<lambda>a b. a) True (\<lambda>c. DoubleVal quiet_NaN) ([1 :: int, 1], DoubleVal five) [0, 0]
       = DoubleVal quiet_NaN"
proof -
  have z: "isnone (DoubleVal pos_zero) False"
    by (simp add: isnone_def double_eq_pos_zero double_iszero_pos_zero)
  have f: "\<not> isnone (DoubleVal five) True"
    by (simp add: isnone_def not_double_isnan_five double_eq_pos_zero not_double_iszero_five)
  have n: "isnone (DoubleVal quiet_NaN) True"
    by (simp add: isnone_def double_isnan_quiet_NaN)
  show ?thesis
    using z f n
      REPLACE_THEN_ADD_dense [where existing = "DoubleVal pos_zero" and zero_nan = False
        and add = "\<lambda>a b. a" and dest = "\<lambda>c. DoubleVal quiet_NaN" and i = "[1 :: int, 1]"
        and v = "DoubleVal five" and j = "[0, 0]"]
      REPLACE_THEN_ADD_dense [where existing = "DoubleVal five" and zero_nan = True
        and add = "\<lambda>a b. a" and dest = "\<lambda>c. DoubleVal quiet_NaN" and i = "[1 :: int, 1]"
        and v = "DoubleVal five" and j = "[0, 0]"]
    by simp
qed

subsection \<open>Consolidation\<close>



lemma perms_of_three:
  "perms [0 :: nat, 1, 2] = [[0, 1, 2], [1, 0, 2], [1, 2, 0], [0, 2, 1], [2, 0, 1], [2, 1, 0]]"
  by simp



lemma valid_permutation_set: "valid_permutation n p \<Longrightarrow> set p = {0..<n}"
proof -
  assume "valid_permutation n p"
  then have "set (sort p) = set [0..<n]"
    by (simp add: valid_permutation_def)
  then show ?thesis
    by simp
qed




























end
